theory Spec2Isabelle
  imports Main "HOL-Library.Word" "HOL-Library.Sublist"
begin

section \<open>Strings\<close>

text \<open>
  A JavaScript string is a sequence of UTF-16 code units, and the regular expression of
  \<open>generateTemplate\<close> has no \<open>u\<close> flag, so it works on code units. A string is
  modelled as a list of 16-bit words. \<open>js\<close> turns an Isabelle literal into such a string.
\<close>

type_synonym jschar = "16 word"
type_synonym jsstring = "jschar list"

definition js :: "string \<Rightarrow> jsstring" where
  "js s = map of_char s"

definition MARKER :: jschar where
  "MARKER = 0x25"

definition PERIOD :: jschar where
  "PERIOD = 0x2E"

definition DOLLAR :: jschar where
  "DOLLAR = 0x24"

text \<open>
  The class \<open>\s\<close> of a JavaScript regular expression, which is also the set of
  characters that \<open>String.prototype.trim\<close> strips: WhiteSpace and LineTerminator.
\<close>

definition is_space :: "jschar \<Rightarrow> bool" where
  "is_space c =
     (c = 0x09 \<or> c = 0x0A \<or> c = 0x0B \<or> c = 0x0C \<or> c = 0x0D \<or> c = 0x20 \<or> c = 0xA0
      \<or> c = 0x1680 \<or> (0x2000 \<le> c \<and> c \<le> 0x200A) \<or> c = 0x2028 \<or> c = 0x2029
      \<or> c = 0x202F \<or> c = 0x205F \<or> c = 0x3000 \<or> c = 0xFEFF)"

text \<open>The character class \<open>[^\s.]\<close> of the regular expression.\<close>

definition key_char :: "jschar \<Rightarrow> bool" where
  "key_char c = (\<not> is_space c \<and> c \<noteq> PERIOD)"

text \<open>\<open>s.slice(a, b)\<close> for \<open>0 \<le> a\<close> and \<open>0 \<le> b\<close>.\<close>

definition slice :: "nat \<Rightarrow> nat \<Rightarrow> 'a list \<Rightarrow> 'a list" where
  "slice a b s = take (b - a) (drop a s)"

text \<open>\<open>s.includes(p)\<close>: \<open>p\<close> occurs in \<open>s\<close> as a contiguous substring.\<close>

fun includes_str :: "'a list \<Rightarrow> 'a list \<Rightarrow> bool" where
  "includes_str [] p = (p = [])"
| "includes_str (c # s) p = (prefix p (c # s) \<or> includes_str s p)"

text \<open>\<open>s.trim()\<close>.\<close>

definition trim :: "jsstring \<Rightarrow> jsstring" where
  "trim s = rev (dropWhile is_space (rev (dropWhile is_space s)))"


section \<open>The template engine\<close>

subsection \<open>The regular expression \<open>/%[^\s.]+?%/gm\<close>\<close>

text \<open>
  After the opening marker and the first character of the class, the lazy quantifier
  takes one more character of the class at a time and stops at the first position where
  the next character is the marker. \<open>lazy_tail\<close> is that scan: it returns the
  characters taken and what follows the closing marker.
\<close>

fun lazy_tail :: "jsstring \<Rightarrow> (jsstring \<times> jsstring) option" where
  "lazy_tail [] = None"
| "lazy_tail (c # r) =
     (if c = MARKER then Some ([], r)
      else if key_char c then
        (case lazy_tail r of None \<Rightarrow> None | Some (k, rest) \<Rightarrow> Some (c # k, rest))
      else None)"

text \<open>
  A match attempt at the start of \<open>s\<close>: the matched text and the rest of the string.
  The first character of the key only has to be in the class, and the marker is in
  the class.
\<close>

fun match_at :: "jsstring \<Rightarrow> (jsstring \<times> jsstring) option" where
  "match_at (c0 # c1 # r) =
     (if c0 = MARKER \<and> key_char c1 then
        (case lazy_tail r of None \<Rightarrow> None
         | Some (k, rest) \<Rightarrow> Some (MARKER # c1 # k @ [MARKER], rest))
      else None)"
| "match_at _ = None"

lemma lazy_tail_length:
  "lazy_tail s = Some (k, rest) \<Longrightarrow> length rest < length s"
  by (induction s arbitrary: k rest) (auto split: if_splits option.splits)

lemma match_at_length:
  "match_at s = Some (m, rest) \<Longrightarrow> length rest < length s"
  by (cases s rule: match_at.cases)
     (auto split: if_splits option.splits dest: lazy_tail_length)

text \<open>
  \<open>template.match(regex) || []\<close> with the \<open>g\<close> flag: all matches from left to
  right, the search for the next one starting where the last one ended.
\<close>

function matches :: "jsstring \<Rightarrow> jsstring list" where
  "matches [] = []"
| "matches (c # r) =
     (case match_at (c # r) of
        None \<Rightarrow> matches r
      | Some (m, rest) \<Rightarrow> m # matches rest)"
  by pat_completeness auto
termination
  by (relation "measure length") (auto dest: match_at_length)

subsection \<open>\<open>String.prototype.replace\<close> with a string pattern\<close>

text \<open>
  The first occurrence of \<open>pat\<close> in \<open>s\<close>: the text before it and the text after it.
\<close>

fun find_first :: "jsstring \<Rightarrow> jsstring \<Rightarrow> (jsstring \<times> jsstring) option" where
  "find_first pat [] = (if pat = [] then Some ([], []) else None)"
| "find_first pat (c # s) =
     (if prefix pat (c # s) then Some ([], drop (length pat) (c # s))
      else (case find_first pat s of None \<Rightarrow> None
            | Some (b, a) \<Rightarrow> Some (c # b, a)))"

text \<open>
  GetSubstitution of ECMAScript for a string pattern (no capture groups): in the
  replacement text \<open>$$\<close> stands for a dollar sign, \<open>$&\<close> for the matched text,
  \<open>$`\<close> for the text before the match and \<open>$'\<close> for the text after it. Any other
  character, and a dollar sign followed by anything else, stands for itself.
\<close>

fun getSubstitution :: "jsstring \<Rightarrow> jsstring \<Rightarrow> jsstring \<Rightarrow> jsstring \<Rightarrow> jsstring" where
  "getSubstitution matched pre post [] = []"
| "getSubstitution matched pre post [c] = [c]"
| "getSubstitution matched pre post (c # d # r) =
     (if c = DOLLAR \<and> d = DOLLAR then DOLLAR # getSubstitution matched pre post r
      else if c = DOLLAR \<and> d = 0x26 then matched @ getSubstitution matched pre post r
      else if c = DOLLAR \<and> d = 0x60 then pre @ getSubstitution matched pre post r
      else if c = DOLLAR \<and> d = 0x27 then post @ getSubstitution matched pre post r
      else c # getSubstitution matched pre post (d # r))"

text \<open>
  \<open>s.replace(pat, repl)\<close> for strings \<open>pat\<close> and \<open>repl\<close>: only the first occurrence
  is replaced, and a string without an occurrence is returned as it is.
\<close>

definition replace :: "jsstring \<Rightarrow> jsstring \<Rightarrow> jsstring \<Rightarrow> jsstring" where
  "replace s pat repl =
     (case find_first pat s of
        None \<Rightarrow> s
      | Some (b, a) \<Rightarrow> b @ getSubstitution pat b a repl @ a)"

subsection \<open>\<open>generateTemplate\<close>\<close>

text \<open>
  The data object is modelled by its property lookup: \<open>D k = None\<close> when
  \<open>data[k]\<close> is \<open>undefined\<close>, and \<open>D k = Some v\<close> when \<open>data[k]\<close> is a value whose string
  form (what \<open>replace\<close> makes of it) is \<open>v\<close>. Function-valued properties, which a parsed
  JSON document can only inherit from \<open>Object.prototype\<close>, are outside the model.
\<close>

type_synonym data = "jsstring \<Rightarrow> jsstring option"

definition key_of :: "jsstring \<Rightarrow> jsstring" where
  "key_of m = slice 1 (length m - 1) m"

definition value_of :: "data \<Rightarrow> jsstring \<Rightarrow> jsstring" where
  "value_of D m = (case D (key_of m) of None \<Rightarrow> [] | Some v \<Rightarrow> v)"

text \<open>The loop body, and the loop over the matches found in the original template.\<close>

definition substitute :: "data \<Rightarrow> jsstring \<Rightarrow> jsstring \<Rightarrow> jsstring" where
  "substitute D template m = replace template m (value_of D m)"

definition generateTemplate :: "jsstring \<Rightarrow> data \<Rightarrow> jsstring" where
  "generateTemplate template D = foldl (substitute D) template (matches template)"

text \<open>
  What the spec asks of the engine, written from its words: one pass over the template in
  which each token is replaced by the value of its key (the empty string for an absent
  key) and every other character is kept. It is the reference that \<open>generateTemplate\<close>
  is compared with.
\<close>

function render_spec :: "data \<Rightarrow> jsstring \<Rightarrow> jsstring" where
  "render_spec D [] = []"
| "render_spec D (c # r) =
     (case match_at (c # r) of
        None \<Rightarrow> c # render_spec D r
      | Some (m, rest) \<Rightarrow> value_of D m @ render_spec D rest)"
  by pat_completeness auto
termination
  by (relation "measure (\<lambda>(D, s). length s)") (auto dest: match_at_length)

text \<open>
  The token of the spec: the marker, one or more characters that are neither whitespace
  nor the marker nor a period, and the marker again.
\<close>

definition spec_token :: "jsstring \<Rightarrow> bool" where
  "spec_token m =
     (3 \<le> length m \<and> hd m = MARKER \<and> last m = MARKER
      \<and> list_all (\<lambda>c. key_char c \<and> c \<noteq> MARKER) (key_of m))"

text \<open>
  The token of the regular expression: the first character of the key may be the marker,
  and the closing marker is the first marker after it.
\<close>

definition regex_token :: "jsstring \<Rightarrow> bool" where
  "regex_token m =
     (3 \<le> length m \<and> hd m = MARKER \<and> last m = MARKER
      \<and> list_all key_char (key_of m) \<and> MARKER \<notin> set (tl (key_of m)))"

text \<open>
  A string contains a token of a kind when one of its contiguous substrings is one.
\<close>

definition contains_token :: "(jsstring \<Rightarrow> bool) \<Rightarrow> jsstring \<Rightarrow> bool" where
  "contains_token P s = list_ex P (concat (map prefixes (suffixes s)))"

text \<open>
  The leftmost non-overlapping occurrences of regular-expression tokens in a string:
  either no token occurs at all, or the string is a gap, the token that starts first,
  and a rest with its own occurrences.
\<close>

inductive occurrences :: "jsstring \<Rightarrow> jsstring list \<Rightarrow> bool" where
  occ_none: "(\<And>g m r. T = g @ m @ r \<Longrightarrow> \<not> regex_token m) \<Longrightarrow> occurrences T []"
| occ_step: "T = g @ m @ r \<Longrightarrow> regex_token m \<Longrightarrow>
     (\<And>g' m' r'. T = g' @ m' @ r' \<Longrightarrow> regex_token m' \<Longrightarrow> length g \<le> length g') \<Longrightarrow>
     occurrences r ms \<Longrightarrow> occurrences T (m # ms)"

text \<open>
  A prefix of the working string is sealed when no token of any continuation of it
  starts inside it: a later \<open>replace\<close> cannot find its pattern there.
\<close>

definition sealed :: "jsstring \<Rightarrow> bool" where
  "sealed P = (\<forall>X g m r. P @ X = g @ m @ r \<and> regex_token m \<longrightarrow> length P \<le> length g)"


section \<open>The input session\<close>

text \<open>
  The world the session and the server run in: the installation directory, the port, the
  platform, and the outcome of each file-system call at the moment it is made. A call
  that throws is \<open>None\<close> (or \<open>False\<close> for a write).
\<close>

type_synonym bytes = "8 word list"

datatype error = TypeError | SyntaxError | IOError

text \<open>
  A parsed JSON document: \<open>null\<close>, on which any property lookup throws, or a value with
  a property lookup.
\<close>

datatype json = JNull | JObject data

record env =
  dirname :: jsstring
  PORT :: jsstring
  isWindows :: bool
  readFileSync :: "jsstring \<Rightarrow> bytes option"
  toString :: "bytes \<Rightarrow> jsstring"
  JSON_parse :: "bytes \<Rightarrow> json option"
  writeFileSync :: "jsstring \<Rightarrow> jsstring \<Rightarrow> bool"
  readdir :: "jsstring \<Rightarrow> jsstring list option"

definition QUOTE :: jschar where
  "QUOTE = 0x27"

definition RESULTS_DIRECTORY :: "env \<Rightarrow> jsstring" where
  "RESULTS_DIRECTORY e = dirname e @ js ''/../results''"

text \<open>
  \<open>path.split(sep)\<close> for a separator of one character. The result always has a first
  segment, so the last branch is never taken.
\<close>

fun split :: "'a \<Rightarrow> 'a list \<Rightarrow> 'a list list" where
  "split sep [] = [[]]"
| "split sep (c # s) =
     (if c = sep then [] # split sep s
      else (case split sep s of
              p # ps \<Rightarrow> (c # p) # ps
            | [] \<Rightarrow> [[c]]))"

definition getFileNameFromPath :: "env \<Rightarrow> jsstring \<Rightarrow> jsstring" where
  "getFileNameFromPath e path =
     (let pathSplit = split (if isWindows e then 0x5C else 0x2F) path
      in last pathSplit)"

definition readTemplateFile :: "env \<Rightarrow> jsstring \<Rightarrow> error + jsstring" where
  "readTemplateFile e filePath =
     (case readFileSync e filePath of
        None \<Rightarrow> Inl IOError
      | Some b \<Rightarrow> Inr (toString e b))"

definition readDataFile :: "env \<Rightarrow> jsstring \<Rightarrow> error + json" where
  "readDataFile e filePath =
     (case readFileSync e filePath of
        None \<Rightarrow> Inl IOError
      | Some b \<Rightarrow> (case JSON_parse e b of None \<Rightarrow> Inl SyntaxError | Some j \<Rightarrow> Inr j))"

text \<open>
  The call \<open>generateTemplate(template, data)\<close> of the session, where \<open>data\<close> is whatever
  the JSON parser returned: on \<open>null\<close> the first lookup \<open>data[key]\<close> throws. A token
  that names a function inherited from \<open>Object.prototype\<close> (such as \<open>valueOf\<close>), whose
  call as a replacer can throw as well, is outside the model, as it is for \<open>data\<close>.
\<close>

definition generateTemplate_json :: "jsstring \<Rightarrow> json \<Rightarrow> error + jsstring" where
  "generateTemplate_json template j =
     (case j of
        JObject D \<Rightarrow> Inr (generateTemplate template D)
      | JNull \<Rightarrow> (if matches template = [] then Inr template else Inl TypeError))"

text \<open>
  What the session does is recorded as a list of events: a call of \<open>askQuestion\<close>, a
  call of \<open>console.log\<close>, a call of \<open>fs.writeFileSync\<close> (whether it returns or
  throws), and an exception that rejects the promise of \<open>run\<close>. A call of \<open>run\<close>
  executes up to its next \<open>await askQuestion(...)\<close> and is suspended there; \<open>pending\<close>
  is the point of suspension with the variables that are live at it. A stretch of
  execution yields the events it produced and the calls of \<open>run\<close> it left suspended. How
  the line reader hands an answer to a suspended call is not part of the model.
\<close>

datatype event =
    Question jsstring
  | Log jsstring
  | WriteFile jsstring jsstring
  | Rejected error

datatype pending = AwaitTemplate | AwaitData jsstring jsstring

type_synonym stretch = "event list \<times> pending list"

definition log :: "jsstring \<Rightarrow> stretch \<Rightarrow> stretch" where
  "log msg k = (Log msg # fst k, snd k)"

definition seq :: "stretch \<Rightarrow> stretch \<Rightarrow> stretch" where
  "seq a b = (fst a @ fst b, snd a @ snd b)"

text \<open>The second half of \<open>run\<close>, from line 146 to the second \<open>await\<close>.\<close>

definition ask_data :: "jsstring \<Rightarrow> jsstring \<Rightarrow> stretch" where
  "ask_data template templateFileLocation =
     ([Question (js ''Enter data file location: '')],
      [AwaitData template templateFileLocation])"

text \<open>
  A call of \<open>run\<close> up to its first \<open>await\<close>. \<open>None\<close> is a call without an argument (both
  variables \<open>undefined\<close>); \<open>Some (template, templateFileLocation)\<close> is the call with
  the state of the previous attempt, and the empty string is falsy.
\<close>

definition run :: "(jsstring \<times> jsstring) option \<Rightarrow> stretch" where
  "run st =
     (case st of
        None \<Rightarrow> ([Question (js ''Enter template file location: '')], [AwaitTemplate])
      | Some (template, templateFileLocation) \<Rightarrow>
          if template = [] \<and> templateFileLocation = []
          then ([Question (js ''Enter template file location: '')], [AwaitTemplate])
          else ask_data template templateFileLocation)"

definition writeFile :: "env \<Rightarrow> jsstring \<Rightarrow> jsstring \<Rightarrow> stretch \<Rightarrow> stretch" where
  "writeFile e fileLocation content onError =
     (if writeFileSync e fileLocation content
      then ([WriteFile fileLocation content], [])
      else seq ([WriteFile fileLocation content], [])
               (log (js ''Could not create file!'') onError))"

text \<open>
  A suspended call of \<open>run\<close> receives the operator's line and executes to the end of its
  body, starting further calls of \<open>run\<close> on the way.
\<close>

fun resume :: "env \<Rightarrow> pending \<Rightarrow> jsstring \<Rightarrow> stretch" where
  "resume e AwaitTemplate answer =
     (let templateFileLocation = trim answer in
      if templateFileLocation = [] \<or> \<not> includes_str templateFileLocation (js ''.html'')
      then log (js ''Template file should be of type html!'') (run None)
      else
        (case readTemplateFile e templateFileLocation of
           Inl err \<Rightarrow>
             log (js ''File '' @ [QUOTE] @ templateFileLocation @ [QUOTE] @ js '' not found!'')
                 (run None)
         | Inr template \<Rightarrow> ask_data template templateFileLocation))"
| "resume e (AwaitData template templateFileLocation) answer =
     (let templateFileName = getFileNameFromPath e templateFileLocation;
          dataFileLocation = trim answer in
      if dataFileLocation = [] \<or> \<not> includes_str dataFileLocation (js ''.json'')
      then log (js ''Data file should be of type JSON!'')
               (run (Some (template, templateFileLocation)))
      else
        (case readDataFile e dataFileLocation of
           Inl err \<Rightarrow>
             log (if err = SyntaxError
                  then js ''File '' @ [QUOTE] @ dataFileLocation @ [QUOTE] @ js '' is invalid JSON!''
                  else js ''File '' @ [QUOTE] @ dataFileLocation @ [QUOTE] @ js '' not found!'')
                 (run (Some (template, templateFileLocation)))
         | Inr data \<Rightarrow>
             (case generateTemplate_json template data of
                Inl err \<Rightarrow> ([Rejected err], [])
              | Inr newContent \<Rightarrow>
                  seq (writeFile e (RESULTS_DIRECTORY e @ js ''/'' @ templateFileName)
                         newContent (run None))
                      (log (js ''New file is served on https://localhost:'' @ PORT e
                              @ js ''/'' @ templateFileName)
                           (run None)))))"


section \<open>The static server\<close>

datatype body = Text jsstring | Raw bytes

record response =
  status :: nat
  content_type :: jsstring
  body :: body

text \<open>
  A request is answered, or an exception escapes from a callback and no answer is sent.
\<close>

datatype outcome = Responded response | Uncaught error

text \<open>
  The promise of \<open>generateIndex\<close>: resolved, rejected, or never settled because the
  callback of \<open>fs.readdir\<close> threw.
\<close>

datatype settle = Resolved jsstring | RejectedWith error | Thrown error

definition index_link :: "env \<Rightarrow> jsstring \<Rightarrow> jsstring" where
  "index_link e file =
     js ''<a href='' @ [0x22] @ js ''https://localhost:'' @ PORT e @ js ''/'' @ file
       @ [0x22] @ js ''>'' @ file @ js ''</a><br />''"

text \<open>
  The callback handed to \<open>fs.readdir\<close>, with its arguments \<open>err\<close> and \<open>files\<close>
  (\<open>None\<close> for \<open>null\<close> and \<open>undefined\<close>). Its first statement calls \<open>files.filter\<close>.
\<close>

definition readdir_callback :: "env \<Rightarrow> error option \<Rightarrow> jsstring list option \<Rightarrow> settle" where
  "readdir_callback e err files =
     (case files of
        None \<Rightarrow> Thrown TypeError
      | Some fs \<Rightarrow>
          (let files' = filter (\<lambda>file. file \<noteq> js ''.gitignore'') fs in
           case err of
             Some er \<Rightarrow> RejectedWith er
           | None \<Rightarrow>
               Resolved (js ''<html><body>'' @ [0x0A] @ js ''      ''
                 @ (if length files' = 0 then js ''No files found!''
                    else concat (map (index_link e) files'))
                 @ [0x0A] @ js ''      </body></html>'')))"

definition generateIndex :: "env \<Rightarrow> jsstring \<Rightarrow> settle" where
  "generateIndex e directory =
     (case readdir e directory of
        None \<Rightarrow> readdir_callback e (Some IOError) None
      | Some fs \<Rightarrow> readdir_callback e None (Some fs))"

definition serveHtml :: "body \<Rightarrow> outcome" where
  "serveHtml html = Responded \<lparr>status = 200, content_type = js ''text/html'', body = html\<rparr>"

definition httpsRequestHandler :: "env \<Rightarrow> jsstring \<Rightarrow> outcome" where
  "httpsRequestHandler e url =
     (if url = js ''/'' then
        (case generateIndex e (RESULTS_DIRECTORY e) of
           Resolved index \<Rightarrow> serveHtml (Text index)
         | RejectedWith err \<Rightarrow>
             Responded \<lparr>status = 404, content_type = js ''text/plain'',
                        body = Text (js ''Could not generate index'')\<rparr>
         | Thrown err \<Rightarrow> Uncaught err)
      else
        (case readFileSync e (RESULTS_DIRECTORY e @ js ''/'' @ url) of
           Some b \<Rightarrow> serveHtml (Raw b)
         | None \<Rightarrow>
             Responded \<lparr>status = 404, content_type = js ''text/plain'',
                        body = Text (js ''File not found!'')\<rparr>))"

text \<open>
  The suspension points the session can be at: it starts at the template prompt, and
  every suspended call that an answer leaves behind is one, whatever the file system
  looks like at that moment.
\<close>

inductive reachable :: "pending \<Rightarrow> bool" where
  reachable_start: "reachable AwaitTemplate"
| reachable_step: "reachable p \<Longrightarrow> p' \<in> set (snd (resume e p answer)) \<Longrightarrow> reachable p'"


section \<open>Example inputs\<close>

definition bytes_of :: "string \<Rightarrow> bytes" where
  "bytes_of s = map of_char s"

definition ascii :: "bytes \<Rightarrow> jsstring" where
  "ascii b = map ucast b"

definition data_dasha :: data where
  "data_dasha = map_of [(js ''name'', js ''Dasha'')]"

definition data_json_bytes :: bytes where
  "data_json_bytes =
     bytes_of ''{'' @ [0x22] @ bytes_of ''name'' @ [0x22] @ bytes_of '': '' @ [0x22]
       @ bytes_of ''Dasha'' @ [0x22] @ bytes_of ''}''"

text \<open>
  A machine with the template and the data file of the README, a data file cut off
  after its first character, and a results directory that holds one generated file.
\<close>

definition env_ok :: env where
  "env_ok =
     \<lparr>dirname = js ''/app/bin'', PORT = js ''3000'', isWindows = False,
      readFileSync = map_of
        [(js ''/home/d/template.html'', bytes_of ''<p>Hello %name%!</p>''),
         (js ''/home/d/data.json'', data_json_bytes),
         (js ''/home/d/cut.json'', bytes_of ''{''),
         (js ''/app/bin/../results//template.html'', bytes_of ''<p>Hello Dasha!</p>'')],
      toString = ascii,
      JSON_parse = map_of [(data_json_bytes, JObject data_dasha)],
      writeFileSync = (\<lambda>fileLocation content. True),
      readdir = map_of
        [(js ''/app/bin/../results'', [js ''.gitignore'', js ''template.html''])]\<rparr>"

text \<open>The same machine after its results directory was removed.\<close>

definition env_no_results :: env where
  "env_no_results =
     env_ok\<lparr>readFileSync := map_of
               [(js ''/home/d/template.html'', bytes_of ''<p>Hello %name%!</p>''),
                (js ''/home/d/data.json'', data_json_bytes),
                (js ''/home/d/cut.json'', bytes_of ''{'')],
            writeFileSync := (\<lambda>fileLocation content. False),
            readdir := (\<lambda>directory. None)\<rparr>"


section \<open>Evaluation\<close>

lemmas char_defs = js_def bytes_of_def ascii_def MARKER_def PERIOD_def DOLLAR_def QUOTE_def
  key_char_def is_space_def

lemmas template_defs = generateTemplate_def substitute_def replace_def value_of_def key_of_def
  slice_def

lemmas session_defs = Let_def log_def run_def seq_def writeFile_def ask_data_def
  readTemplateFile_def readDataFile_def generateTemplate_json_def RESULTS_DIRECTORY_def
  getFileNameFromPath_def trim_def

lemmas server_defs = httpsRequestHandler_def generateIndex_def readdir_callback_def
  serveHtml_def index_link_def

lemmas example_defs = env_ok_def env_no_results_def data_dasha_def data_json_bytes_def


section \<open>Properties of the template engine\<close>

subsection \<open>What the regular expression matches\<close>

lemma lazy_tail_Some_iff:
  "lazy_tail s = Some (k, rest) \<longleftrightarrow>
   s = k @ MARKER # rest \<and> MARKER \<notin> set k \<and> list_all key_char k"
proof
  show "lazy_tail s = Some (k, rest) \<Longrightarrow>
        s = k @ MARKER # rest \<and> MARKER \<notin> set k \<and> list_all key_char k"
    by (induction s arbitrary: k) (auto split: if_splits option.splits)
next
  assume "s = k @ MARKER # rest \<and> MARKER \<notin> set k \<and> list_all key_char k"
  then show "lazy_tail s = Some (k, rest)"
    by (induction k arbitrary: s) auto
qed

lemma key_of_token: "key_of (x # k @ [y]) = k"
  by (simp add: key_of_def slice_def)

lemma regex_token_shape:
  "regex_token m \<longleftrightarrow>
   (\<exists>c k. m = MARKER # c # k @ [MARKER] \<and> key_char c \<and> list_all key_char k
          \<and> MARKER \<notin> set k)"
proof
  assume t: "regex_token m"
  then have len: "3 \<le> length m" by (simp add: regex_token_def)
  then obtain x m' where m: "m = x # m'" by (cases m) auto
  with len have "m' \<noteq> []" by auto
  then obtain k' y where m': "m' = k' @ [y]" by (metis rev_exhaust)
  with m len have "k' \<noteq> []" by auto
  then obtain c k where k': "k' = c # k" by (cases k') auto
  have shape: "m = x # (c # k) @ [y]" using m m' k' by simp
  have "key_of m = c # k" unfolding shape by (rule key_of_token)
  with t shape show "\<exists>c k. m = MARKER # c # k @ [MARKER] \<and> key_char c \<and> list_all key_char k
          \<and> MARKER \<notin> set k"
    by (auto simp: regex_token_def)
next
  assume "\<exists>c k. m = MARKER # c # k @ [MARKER] \<and> key_char c \<and> list_all key_char k
          \<and> MARKER \<notin> set k"
  then obtain c k where m: "m = MARKER # (c # k) @ [MARKER]" and c: "key_char c"
    and k: "list_all key_char k" "MARKER \<notin> set k" by auto
  have "key_of m = c # k" unfolding m by (rule key_of_token)
  with m c k show "regex_token m" by (simp add: regex_token_def)
qed

lemma match_at_Some_iff:
  "match_at s = Some (m, rest) \<longleftrightarrow> s = m @ rest \<and> regex_token m"
proof
  assume a: "match_at s = Some (m, rest)"
  then obtain c0 c1 r where s: "s = c0 # c1 # r"
    by (cases s rule: match_at.cases) auto
  from a s obtain k where c: "c0 = MARKER" "key_char c1"
    and l: "lazy_tail r = Some (k, rest)" and m: "m = MARKER # c1 # k @ [MARKER]"
    by (auto split: if_splits option.splits)
  from l have "r = k @ MARKER # rest" "MARKER \<notin> set k" "list_all key_char k"
    by (simp_all add: lazy_tail_Some_iff)
  with s c m show "s = m @ rest \<and> regex_token m"
    by (auto simp: regex_token_shape)
next
  assume "s = m @ rest \<and> regex_token m"
  then obtain c k where s: "s = MARKER # c # k @ MARKER # rest"
    and m: "m = MARKER # c # k @ [MARKER]"
    and c: "key_char c" and k: "list_all key_char k" "MARKER \<notin> set k"
    by (auto simp: regex_token_shape)
  from k have "lazy_tail (k @ MARKER # rest) = Some (k, rest)"
    by (simp add: lazy_tail_Some_iff)
  with s m c show "match_at s = Some (m, rest)" by simp
qed

lemma match_at_None_iff:
  "match_at s = None \<longleftrightarrow> (\<forall>m rest. s = m @ rest \<longrightarrow> \<not> regex_token m)"
proof -
  have "match_at s = None \<longleftrightarrow> (\<forall>m rest. match_at s \<noteq> Some (m, rest))"
    by (cases "match_at s") auto
  then show ?thesis by (simp add: match_at_Some_iff)
qed

lemma matches_no_occurrence:
  "(\<And>g m r. T = g @ m @ r \<Longrightarrow> \<not> regex_token m) \<Longrightarrow> matches T = []"
proof (induction T)
  case Nil
  then show ?case by simp
next
  case (Cons c T)
  have none: "match_at (c # T) = None"
    unfolding match_at_None_iff using Cons.prems[of "[]"] by auto
  have "matches T = []"
  proof (rule Cons.IH)
    fix g m r assume "T = g @ m @ r"
    then have "c # T = (c # g) @ m @ r" by simp
    then show "\<not> regex_token m" by (rule Cons.prems)
  qed
  with none show ?case by simp
qed

lemma matches_leftmost:
  assumes "T = g @ m @ r" and "regex_token m"
    and "\<And>g' m' r'. T = g' @ m' @ r' \<Longrightarrow> regex_token m' \<Longrightarrow> length g \<le> length g'"
  shows "matches T = m # matches r"
  using assms
proof (induction g arbitrary: T)
  case Nil
  then have "match_at T = Some (m, r)" by (simp add: match_at_Some_iff)
  moreover have "T \<noteq> []" using Nil by (auto simp: regex_token_def)
  ultimately show ?case by (cases T) auto
next
  case (Cons c g)
  have none: "match_at (c # g @ m @ r) = None"
  proof (rule ccontr)
    assume "match_at (c # g @ m @ r) \<noteq> None"
    then obtain m' r' where "match_at (c # g @ m @ r) = Some (m', r')" by auto
    then have "T = [] @ m' @ r'" "regex_token m'"
      using Cons.prems(1) by (simp_all add: match_at_Some_iff)
    then have "length (c # g) \<le> length ([]::jsstring)" by (rule Cons.prems(3))
    then show False by simp
  qed
  have "matches (g @ m @ r) = m # matches r"
  proof (rule Cons.IH[OF refl Cons.prems(2)])
    fix g' m' r' assume d: "g @ m @ r = g' @ m' @ r'" and t: "regex_token m'"
    from d have "T = (c # g') @ m' @ r'" using Cons.prems(1) by simp
    from Cons.prems(3)[OF this t] show "length g \<le> length g'" by simp
  qed
  with none show ?case using Cons.prems(1) by simp
qed

lemma occurrences_matches: "occurrences T ms \<Longrightarrow> matches T = ms"
proof (induction rule: occurrences.induct)
  case (occ_none T)
  then show ?case by (rule matches_no_occurrence)
next
  case (occ_step T g m r ms)
  have "matches T = m # matches r"
    using occ_step.hyps(1,2,3) by (rule matches_leftmost)
  with occ_step.IH show ?case by simp
qed

lemma occurrences_skip:
  assumes none: "match_at (c # T) = None" and occ: "occurrences T ms"
  shows "occurrences (c # T) ms"
  using occ
proof (cases rule: occurrences.cases)
  case occ_none
  show ?thesis unfolding occ_none(1)
  proof (rule occurrences.occ_none)
    fix g m r assume d: "c # T = g @ m @ r"
    show "\<not> regex_token m"
    proof (cases g)
      case Nil
      with d none show ?thesis by (auto simp: match_at_None_iff)
    next
      case (Cons c' g')
      with d have "T = g' @ m @ r" by simp
      then show ?thesis by (rule occ_none(2))
    qed
  qed
next
  case (occ_step g m r ms')
  show ?thesis unfolding occ_step(1)
  proof (rule occurrences.occ_step[where g = "c # g" and r = r])
    show "c # T = (c # g) @ m @ r" using occ_step(2) by simp
    show "regex_token m" by (rule occ_step(3))
    show "occurrences r ms'" by (rule occ_step(5))
    fix g' m' r' assume d: "c # T = g' @ m' @ r'" and t: "regex_token m'"
    show "length (c # g) \<le> length g'"
    proof (cases g')
      case Nil
      with d t none show ?thesis by (auto simp: match_at_None_iff)
    next
      case (Cons c' g'')
      with d have "T = g'' @ m' @ r'" by simp
      from occ_step(4)[OF this t] Cons show ?thesis by simp
    qed
  qed
qed

lemma matches_occurrences: "occurrences T (matches T)"
proof (induction T rule: matches.induct)
  case 1
  have "occurrences [] []" by (rule occ_none) (auto simp: regex_token_def)
  then show ?case by simp
next
  case (2 c r)
  show ?case
  proof (cases "match_at (c # r)")
    case None
    with "2.IH"(1) show ?thesis by (simp add: occurrences_skip)
  next
    case (Some a)
    obtain m rest where a: "a = (m, rest)" by (cases a)
    with Some have ma: "match_at (c # r) = Some (m, rest)" by simp
    then have d: "c # r = [] @ m @ rest" and t: "regex_token m"
      by (simp_all add: match_at_Some_iff)
    have o: "occurrences rest (matches rest)" using "2.IH"(2) Some a by simp
    have "occurrences (c # r) (m # matches rest)"
      by (rule occ_step [OF d t _ o]) simp
    with ma show ?thesis by simp
  qed
qed

text \<open>
  Claim C2, as stated: the key of a recognized token never contains the marker. In
  \<open>%%a%\<close> the regular expression matches the whole string, which is not a token of
  the spec, and the key \<open>%a\<close> contains the marker: the class \<open>[^\s.]\<close> excludes
  whitespace and the period only.
\<close>

theorem matches_marker_in_key_counterexample:
  "matches (js ''%%a%'') = [js ''%%a%'']
   \<and> \<not> spec_token (js ''%%a%'')
   \<and> MARKER \<in> set (key_of (js ''%%a%''))"
  by (simp add: char_defs spec_token_def key_of_def slice_def)

text \<open>
  Claim C2, amended. The tokens recognized by \<open>generateTemplate\<close> are exactly the
  leftmost non-overlapping occurrences of: the marker, a key of one or more characters
  that are neither whitespace nor a period and of which only the first may be the
  marker, and the marker again. A key may contain any other character, a slash or a
  backslash included.
\<close>

theorem matches_are_leftmost_occurrences:
  "occurrences T ms \<longleftrightarrow> ms = matches T"
  using occurrences_matches matches_occurrences by auto

theorem matches_are_leftmost_occurrences_witness:
  "occurrences (js ''a%b% %%c/d%. %e'') [js ''%b%'', js ''%%c/d%'']"
proof -
  have "[js ''%b%'', js ''%%c/d%''] = matches (js ''a%b% %%c/d%. %e'')"
    by (simp add: char_defs)
  then show ?thesis
    using matches_are_leftmost_occurrences
      [of "js ''a%b% %%c/d%. %e''" "[js ''%b%'', js ''%%c/d%'']"]
    by simp
qed

subsection \<open>The loop against one simultaneous pass\<close>

lemma key_char_MARKER: "key_char MARKER"
  by (simp add: key_char_def is_space_def MARKER_def PERIOD_def)

lemma getSubstitution_plain:
  "DOLLAR \<notin> set v \<Longrightarrow> getSubstitution matched pre post v = v"
  by (induction matched pre post v rule: getSubstitution.induct) auto

lemma find_first_prefix:
  "prefix pat s \<Longrightarrow> find_first pat s = Some ([], drop (length pat) s)"
  by (cases s) auto

lemma find_first_leftmost:
  assumes "s = b @ pat @ a"
    and "\<And>b' a'. s = b' @ pat @ a' \<Longrightarrow> length b \<le> length b'"
  shows "find_first pat s = Some (b, a)"
  using assms
proof (induction b arbitrary: s)
  case Nil
  then have "prefix pat s" "drop (length pat) s = a" by simp_all
  then show ?case using find_first_prefix by blast
next
  case (Cons c b)
  have np: "\<not> prefix pat (c # b @ pat @ a)"
  proof
    assume "prefix pat (c # b @ pat @ a)"
    then obtain a' where "c # b @ pat @ a = pat @ a'" by (auto simp: prefix_def)
    then have "s = [] @ pat @ a'" using Cons.prems(1) by simp
    then have "length (c # b) \<le> length ([]::jsstring)" by (rule Cons.prems(2))
    then show False by simp
  qed
  have "find_first pat (b @ pat @ a) = Some (b, a)"
  proof (rule Cons.IH[OF refl])
    fix b' a' assume "b @ pat @ a = b' @ pat @ a'"
    then have "s = (c # b') @ pat @ a'" using Cons.prems(1) by simp
    from Cons.prems(2)[OF this] show "length b \<le> length b'" by simp
  qed
  with np show ?case using Cons.prems(1) by simp
qed

text \<open>
  A string either has no match, or splits into the gap before its first match, the
  match, and the rest, where \<open>matches\<close> and \<open>render_spec\<close> both continue.
\<close>

lemma decomposition:
  "(matches R = [] \<and> render_spec D R = R) \<or>
   (\<exists>g m r. R = g @ m @ r \<and> regex_token m
      \<and> (\<forall>g' m' r'. R = g' @ m' @ r' \<and> regex_token m' \<longrightarrow> length g \<le> length g')
      \<and> matches R = m # matches r
      \<and> render_spec D R = g @ value_of D m @ render_spec D r)"
proof (induction R)
  case Nil
  then show ?case by simp
next
  case (Cons c R)
  show ?case
  proof (cases "match_at (c # R)")
    case (Some a)
    obtain m rest where a: "a = (m, rest)" by (cases a)
    with Some have ma: "match_at (c # R) = Some (m, rest)" by simp
    then have "c # R = [] @ m @ rest" "regex_token m" by (simp_all add: match_at_Some_iff)
    moreover have "matches (c # R) = m # matches rest"
      "render_spec D (c # R) = [] @ value_of D m @ render_spec D rest"
      using ma by simp_all
    ultimately show ?thesis by (metis list.size(3) le0)
  next
    case None
    then have eqs: "matches (c # R) = matches R" "render_spec D (c # R) = c # render_spec D R"
      by simp_all
    from Cons.IH show ?thesis
    proof
      assume "matches R = [] \<and> render_spec D R = R"
      with eqs show ?thesis by simp
    next
      assume "\<exists>g m r. R = g @ m @ r \<and> regex_token m
        \<and> (\<forall>g' m' r'. R = g' @ m' @ r' \<and> regex_token m' \<longrightarrow> length g \<le> length g')
        \<and> matches R = m # matches r
        \<and> render_spec D R = g @ value_of D m @ render_spec D r"
      then obtain g m r where R: "R = g @ m @ r" and t: "regex_token m"
        and lm: "\<And>g' m' r'. R = g' @ m' @ r' \<Longrightarrow> regex_token m' \<Longrightarrow> length g \<le> length g'"
        and ms: "matches R = m # matches r"
        and rs: "render_spec D R = g @ value_of D m @ render_spec D r" by blast
      have lm': "length (c # g) \<le> length g'" if d: "c # R = g' @ m' @ r'" and t': "regex_token m'"
        for g' m' r'
      proof (cases g')
        case Nil
        with d t' None show ?thesis by (auto simp: match_at_None_iff)
      next
        case (Cons c' g'')
        with d have "R = g'' @ m' @ r'" by simp
        from lm[OF this t'] Cons show ?thesis by simp
      qed
      have "c # R = (c # g) @ m @ r" using R by simp
      moreover have "matches (c # R) = m # matches r" using eqs ms by simp
      moreover have "render_spec D (c # R) = (c # g) @ value_of D m @ render_spec D r"
        using eqs rs by simp
      ultimately show ?thesis using t lm' by blast
    qed
  qed
qed

lemma sealed_Nil: "sealed []"
  by (simp add: sealed_def)

text \<open>
  If a token starts in the gap before a token \<open>m\<close> and runs past the end of the gap,
  then a token starts at the same place when the gap is followed by \<open>m\<close>.
\<close>

lemma token_across_gap:
  assumes m: "regex_token m" and m': "regex_token m'"
    and g2: "g2 \<noteq> []" and p: "prefix g2 m'" and ne: "g2 \<noteq> m'"
  shows "\<exists>t rest. g2 @ m = t @ rest \<and> regex_token t"
proof -
  from m obtain c k where ms: "m = MARKER # c # k @ [MARKER]" and c: "key_char c"
    and k: "list_all key_char k" "MARKER \<notin> set k" by (auto simp: regex_token_shape)
  from m' obtain c' k' where ms': "m' = MARKER # c' # k' @ [MARKER]" and c': "key_char c'"
    and k': "list_all key_char k'" "MARKER \<notin> set k'" by (auto simp: regex_token_shape)
  from p ne obtain z where z: "m' = g2 @ z" "z \<noteq> []" by (auto simp: prefix_def)
  from g2 z ms' obtain u where u: "g2 = MARKER # u" by (cases g2) auto
  with z ms' have uz: "c' # k' @ [MARKER] = u @ z" by simp
  show ?thesis
  proof (cases u)
    case Nil
    show ?thesis
    proof (cases "c = MARKER")
      case True
      have "regex_token [MARKER, MARKER, MARKER]"
        by (simp add: regex_token_shape key_char_MARKER)
      moreover have "g2 @ m = [MARKER, MARKER, MARKER] @ k @ [MARKER]"
        using u Nil ms True by simp
      ultimately show ?thesis by blast
    next
      case False
      have "regex_token (MARKER # MARKER # (c # k) @ [MARKER])"
        unfolding regex_token_shape using c k False key_char_MARKER by auto
      moreover have "g2 @ m = (MARKER # MARKER # (c # k) @ [MARKER]) @ []"
        using u Nil ms by simp
      ultimately show ?thesis by blast
    qed
  next
    case (Cons d u')
    with uz have d: "d = c'" and u'z: "k' @ [MARKER] = u' @ z" by simp_all
    from u'z z(2) have "prefix u' k'"
      by (metis append_butlast_last_id butlast_append butlast_snoc prefix_def)
    then obtain w where "k' = u' @ w" by (auto simp: prefix_def)
    with k' have "list_all key_char u'" "MARKER \<notin> set u'" by simp_all
    then have "regex_token (MARKER # d # u' @ [MARKER])"
      unfolding regex_token_shape using c' d by auto
    moreover have "g2 @ m = (MARKER # d # u' @ [MARKER]) @ (c # k @ [MARKER])"
      using u Cons ms by simp
    ultimately show ?thesis by blast
  qed
qed

lemma append_eq_le:
  assumes "xs @ ys = zs @ ts" and "length xs \<le> length zs"
  obtains us where "zs = xs @ us" and "ys = us @ ts"
  using assms by (auto simp: append_eq_append_conv2)

lemma regex_token_hd: "regex_token t \<Longrightarrow> \<exists>t'. t = MARKER # t'"
  by (auto simp: regex_token_shape)

lemma sealed_extend:
  assumes P: "sealed P" and R: "R = g @ m @ r" and m: "regex_token m"
    and lm: "\<And>g' m' r'. R = g' @ m' @ r' \<Longrightarrow> regex_token m' \<Longrightarrow> length g \<le> length g'"
    and v: "MARKER \<notin> set v"
  shows "sealed (P @ g @ v)"
  unfolding sealed_def
proof (intro allI impI)
  fix X a t b
  assume "(P @ g @ v) @ X = a @ t @ b \<and> regex_token t"
  then have eq: "P @ (g @ v @ X) = a @ t @ b" and t: "regex_token t" by simp_all
  from P eq t have "length P \<le> length a" unfolding sealed_def by blast
  with eq obtain a' where a: "a = P @ a'" and eq1: "g @ v @ X = a' @ t @ b"
    by (rule append_eq_le)
  show "length (P @ g @ v) \<le> length a"
  proof (rule ccontr)
    assume "\<not> length (P @ g @ v) \<le> length a"
    with a have short: "length a' < length g + length v" by simp
    show False
    proof (cases "length a' < length g")
      case True
      from eq1 have "a' @ (t @ b) = g @ (v @ X)" by simp
      moreover from True have "length a' \<le> length g" by simp
      ultimately obtain g2 where g: "g = a' @ g2" and eq2: "t @ b = g2 @ v @ X"
        by (rule append_eq_le)
      from g True have g2: "g2 \<noteq> []" by auto
      show False
      proof (cases "length t \<le> length g2")
        case True
        with eq2 obtain g3 where "g2 = t @ g3" by (rule append_eq_le)
        with g R have "R = a' @ t @ (g3 @ m @ r)" by simp
        from lm[OF this t] g g2 show False by simp
      next
        case False
        from eq2 have "g2 @ (v @ X) = t @ b" by simp
        moreover from False have "length g2 \<le> length t" by simp
        ultimately obtain us where us: "t = g2 @ us"
          by (rule append_eq_le)
        with False have "prefix g2 t" "g2 \<noteq> t" by auto
        from token_across_gap[OF m t g2 this] obtain t' rest
          where "g2 @ m = t' @ rest" and t': "regex_token t'" by blast
        with g R have "R = a' @ t' @ (rest @ r)" by simp
        from lm[OF this t'] g g2 show False by simp
      qed
    next
      case False
      then have "length g \<le> length a'" by simp
      with eq1 obtain a'' where a': "a' = g @ a''" and eq2: "v @ X = a'' @ t @ b"
        by (rule append_eq_le)
      from eq2 have "a'' @ (t @ b) = v @ X" by simp
      moreover from short a' have "length a'' \<le> length v" by simp
      ultimately obtain v2 where v2: "v = a'' @ v2" and eq3: "t @ b = v2 @ X"
        by (rule append_eq_le)
      from v2 short a' have "v2 \<noteq> []" by auto
      moreover from regex_token_hd[OF t] obtain t' where "t = MARKER # t'" by blast
      ultimately have "MARKER \<in> set v2" using eq3 by (cases v2) auto
      with v2 v show False by simp
    qed
  qed
qed

lemma value_of_clean:
  assumes "\<And>k v. D k = Some v \<Longrightarrow> MARKER \<notin> set v \<and> DOLLAR \<notin> set v"
  shows "MARKER \<notin> set (value_of D m) \<and> DOLLAR \<notin> set (value_of D m)"
  using assms by (auto simp: value_of_def split: option.splits)

lemma foldl_substitute:
  assumes clean: "\<And>k v. D k = Some v \<Longrightarrow> MARKER \<notin> set v \<and> DOLLAR \<notin> set v"
  shows "sealed P \<Longrightarrow> foldl (substitute D) (P @ R) (matches R) = P @ render_spec D R"
proof (induction "length R" arbitrary: P R rule: less_induct)
  case less
  from decomposition[of R D] show ?case
  proof
    assume "matches R = [] \<and> render_spec D R = R"
    then show ?thesis by simp
  next
    assume "\<exists>g m r. R = g @ m @ r \<and> regex_token m
      \<and> (\<forall>g' m' r'. R = g' @ m' @ r' \<and> regex_token m' \<longrightarrow> length g \<le> length g')
      \<and> matches R = m # matches r
      \<and> render_spec D R = g @ value_of D m @ render_spec D r"
    then obtain g m r where R: "R = g @ m @ r" and t: "regex_token m"
      and lm: "\<And>g' m' r'. R = g' @ m' @ r' \<Longrightarrow> regex_token m' \<Longrightarrow> length g \<le> length g'"
      and ms: "matches R = m # matches r"
      and rs: "render_spec D R = g @ value_of D m @ render_spec D r" by blast
    let ?v = "value_of D m"
    from value_of_clean[OF clean] have v: "MARKER \<notin> set ?v" "DOLLAR \<notin> set ?v" by simp_all
    have ff: "find_first m (P @ R) = Some (P @ g, r)"
    proof (rule find_first_leftmost)
      show "P @ R = (P @ g) @ m @ r" using R by simp
    next
      fix b' a' assume eq: "P @ R = b' @ m @ a'"
      with less.prems t have "length P \<le> length b'" unfolding sealed_def by blast
      with eq obtain us where b': "b' = P @ us" and "R = us @ m @ a'"
        by (rule append_eq_le)
      from lm[OF this(2) t] b' show "length (P @ g) \<le> length b'" by simp
    qed
    have step: "substitute D (P @ R) m = (P @ g @ ?v) @ r"
      using ff v by (simp add: substitute_def replace_def getSubstitution_plain)
    have sl: "sealed (P @ g @ ?v)"
      using less.prems R t lm v(1) by (rule sealed_extend)
    have "length r < length R" using R t by (auto simp: regex_token_def)
    from less.hyps[OF this sl]
    have "foldl (substitute D) ((P @ g @ ?v) @ r) (matches r) = (P @ g @ ?v) @ render_spec D r" .
    with ms step rs show ?thesis by simp
  qed
qed

text \<open>
  When no value of the mapping contains the marker or a dollar sign, the loop of
  \<open>generateTemplate\<close> computes the simultaneous replacement: every token that the
  regular expression recognizes is replaced by the value of its key, or by the empty
  string when the key is absent, and every other character is kept in place.
\<close>

theorem generateTemplate_render_spec:
  assumes "\<And>k v. D k = Some v \<Longrightarrow> MARKER \<notin> set v \<and> DOLLAR \<notin> set v"
  shows "generateTemplate T D = render_spec D T"
  using foldl_substitute [where D = D and P = "[]" and R = T] assms sealed_Nil
  by (simp add: generateTemplate_def)

lemma generateTemplate_render_spec_example:
  "generateTemplate (js ''%name% and %name%'') data_dasha = js ''Dasha and Dasha''"
proof -
  have "\<And>k v. data_dasha k = Some v \<Longrightarrow> MARKER \<notin> set v \<and> DOLLAR \<notin> set v"
    by (auto simp: data_dasha_def char_defs split: if_splits)
  then have "generateTemplate (js ''%name% and %name%'') data_dasha
             = render_spec data_dasha (js ''%name% and %name%'')"
    by (rule generateTemplate_render_spec)
  also have "\<dots> = js ''Dasha and Dasha''"
    by (simp add: value_of_def key_of_def slice_def char_defs data_dasha_def)
  finally show ?thesis .
qed

subsection \<open>Values that contain the marker or a dollar sign\<close>

text \<open>
  Claim C1. The claim is that every token is replaced by the value of its key, or by the
  empty string when the key is absent, and that every other character is kept. The loop
  replaces the first occurrence of each match in the string as rewritten so far. For the
  template \<open>%a% %b%\<close> and the mapping of \<open>a\<close> to \<open>%b%\<close>, the second iteration finds
  \<open>%b%\<close> in the value just inserted and removes that: the value of \<open>a\<close> is lost and the
  token \<open>%b%\<close> of the template, whose key is absent, is still in the output. The
  simultaneous pass gives \<open>%b%\<close> followed by a space.
\<close>

theorem generateTemplate_replaces_inserted_value:
  "generateTemplate (js ''%a% %b%'') (map_of [(js ''a'', js ''%b%'')]) = js '' %b%''
   \<and> render_spec (map_of [(js ''a'', js ''%b%'')]) (js ''%a% %b%'') = js ''%b% ''"
  by (simp add: template_defs char_defs)

text \<open>
  Claim C3. The claim is that a value is inserted verbatim and never replaced by a later
  substitution of the same call. For the template \<open>%a%%b%\<close> with \<open>a\<close> mapped to
  \<open>%b%\<close> and \<open>b\<close> to \<open>X\<close>, the value inserted for \<open>%a%\<close> is replaced by \<open>X\<close> in the
  next iteration and the token \<open>%b%\<close> of the template stays. For the template \<open>%a%\<close>
  with \<open>a\<close> mapped to \<open>$&\<close>, \<open>replace\<close> expands the value to the matched text, so the
  output is \<open>%a%\<close> and not the value.
\<close>

theorem generateTemplate_rescans_inserted_value:
  "generateTemplate (js ''%a%%b%'') (map_of [(js ''a'', js ''%b%''), (js ''b'', js ''X'')])
     = js ''X%b%''
   \<and> generateTemplate (js ''%a%'') (map_of [(js ''a'', js ''$&'')]) = js ''%a%''"
  by (simp add: template_defs char_defs)

text \<open>
  Claim C4. The claim is that all occurrences of a token are replaced, each by the same
  string. For the template \<open>%a%%a%\<close> with \<open>a\<close> mapped to \<open>x%a%\<close>, the second
  iteration replaces the \<open>%a%\<close> inside the value inserted by the first, and the second
  occurrence of the token in the template is never replaced: the output is
  \<open>xx%a%%a%\<close>, where two replacements by the same string give \<open>x%a%x%a%\<close>.
\<close>

theorem generateTemplate_misses_second_occurrence:
  "generateTemplate (js ''%a%%a%'') (map_of [(js ''a'', js ''x%a%'')]) = js ''xx%a%%a%''
   \<and> render_spec (map_of [(js ''a'', js ''x%a%'')]) (js ''%a%%a%'') = js ''x%a%x%a%''"
  by (simp add: template_defs char_defs)

subsection \<open>Idempotence\<close>

lemma contains_token_iff:
  "contains_token P s \<longleftrightarrow> (\<exists>g m r. s = g @ m @ r \<and> P m)"
proof
  assume "contains_token P s"
  then obtain t m where "suffix t s" "prefix m t" "P m"
    by (auto simp: contains_token_def list_ex_iff)
  then show "\<exists>g m r. s = g @ m @ r \<and> P m"
    by (auto simp: suffix_def prefix_def)
next
  assume "\<exists>g m r. s = g @ m @ r \<and> P m"
  then obtain g m r where s: "s = g @ m @ r" and P: "P m" by blast
  have "suffix (m @ r) s \<and> prefix m (m @ r)" using s by (simp add: suffix_def)
  then have "m @ r \<in> set (suffixes s)" "m \<in> set (prefixes (m @ r))" by simp_all
  then have "m \<in> set (concat (map prefixes (suffixes s)))"
    unfolding set_concat set_map by blast
  with P show "contains_token P s"
    unfolding contains_token_def list_ex_iff by blast
qed

lemma includes_str_iff:
  "includes_str s p \<longleftrightarrow> (\<exists>g r. s = g @ p @ r)"
proof (induction s)
  case Nil
  then show ?case by auto
next
  case (Cons c s)
  show ?case
  proof
    assume "includes_str (c # s) p"
    then consider "prefix p (c # s)" | "includes_str s p" by auto
    then show "\<exists>g r. c # s = g @ p @ r"
    proof cases
      case 1
      then obtain r where "c # s = [] @ p @ r" by (auto simp: prefix_def)
      then show ?thesis by blast
    next
      case 2
      with Cons.IH obtain g r where "s = g @ p @ r" by blast
      then have "c # s = (c # g) @ p @ r" by simp
      then show ?thesis by blast
    qed
  next
    assume "\<exists>g r. c # s = g @ p @ r"
    then obtain g r where d: "c # s = g @ p @ r" by blast
    show "includes_str (c # s) p"
    proof (cases g)
      case Nil
      with d have "prefix p (c # s)" by (simp add: prefix_def)
      then show ?thesis by simp
    next
      case (Cons c' g')
      with d have "s = g' @ p @ r" by simp
      with Cons.IH show ?thesis by auto
    qed
  qed
qed

lemma regex_token_spec_token:
  assumes "regex_token m"
  shows "(\<exists>g t r. m = g @ t @ r \<and> spec_token t) \<or> m = [MARKER, MARKER, MARKER]"
proof -
  from assms obtain c k where m: "m = MARKER # c # k @ [MARKER]" and c: "key_char c"
    and k: "list_all key_char k" "MARKER \<notin> set k" by (auto simp: regex_token_shape)
  from k have k': "list_all (\<lambda>c. key_char c \<and> c \<noteq> MARKER) k"
    by (auto simp: list_all_iff)
  show ?thesis
  proof (cases "c = MARKER")
    case False
    have "key_of m = c # k" unfolding m using key_of_token[of MARKER "c # k" MARKER] by simp
    with m c k' False have "spec_token m" by (simp add: spec_token_def)
    moreover have "m = [] @ m @ []" by simp
    ultimately show ?thesis by blast
  next
    case True
    show ?thesis
    proof (cases k)
      case Nil
      with m True show ?thesis by simp
    next
      case (Cons d k2)
      let ?t = "MARKER # k @ [MARKER]"
      have "key_of ?t = k" by (rule key_of_token)
      with k' Cons have "spec_token ?t" by (simp add: spec_token_def)
      moreover have "m = [MARKER] @ ?t @ []" using m True by simp
      ultimately show ?thesis by blast
    qed
  qed
qed

text \<open>
  Claim C5, as stated: if the output contains no well-formed token, rendering it again
  returns it unchanged. With \<open>a\<close> mapped to \<open>%%%\<close> the template \<open>%a%\<close> renders to
  \<open>%%%\<close>, which contains no token of the spec (the only candidate key is the marker
  itself). The regular expression matches \<open>%%%\<close> all the same, with the key \<open>%\<close>,
  which is absent, so the second rendering returns the empty string.
\<close>

theorem generateTemplate_idempotence_counterexample:
  "generateTemplate (js ''%a%'') (map_of [(js ''a'', js ''%%%'')]) = js ''%%%''
   \<and> \<not> contains_token spec_token (js ''%%%'')
   \<and> generateTemplate (js ''%%%'') (map_of [(js ''a'', js ''%%%'')]) = []
   \<and> generateTemplate (generateTemplate (js ''%a%'') (map_of [(js ''a'', js ''%%%'')]))
        (map_of [(js ''a'', js ''%%%'')])
      \<noteq> generateTemplate (js ''%a%'') (map_of [(js ''a'', js ''%%%'')])"
proof -
  have a: "generateTemplate (js ''%a%'') (map_of [(js ''a'', js ''%%%'')]) = js ''%%%''"
    by (simp add: template_defs char_defs)
  have b: "generateTemplate (js ''%%%'') (map_of [(js ''a'', js ''%%%'')]) = []"
    by (simp add: template_defs char_defs)
  have c: "\<not> contains_token spec_token (js ''%%%'')"
    by (simp add: contains_token_def spec_token_def key_of_def slice_def char_defs)
  have d: "js ''%%%'' \<noteq> []"
    by (simp add: js_def)
  show ?thesis unfolding a b using c d by simp
qed

text \<open>
  Claim C5, amended. If the output of \<open>generateTemplate\<close> for a template and a mapping
  contains no well-formed token of the spec and nowhere three marker characters in a
  row, then rendering the output again with the same mapping returns it unchanged.
\<close>

theorem generateTemplate_idempotent_without_tokens:
  assumes "\<not> contains_token spec_token (generateTemplate T D)"
    and "\<not> includes_str (generateTemplate T D) [MARKER, MARKER, MARKER]"
  shows "generateTemplate (generateTemplate T D) D = generateTemplate T D"
proof -
  have "matches (generateTemplate T D) = []"
  proof (rule matches_no_occurrence)
    fix g m r assume d: "generateTemplate T D = g @ m @ r"
    show "\<not> regex_token m"
    proof
      assume "regex_token m"
      from regex_token_spec_token[OF this] show False
      proof
        assume "\<exists>g' t r'. m = g' @ t @ r' \<and> spec_token t"
        then obtain g' t r' where "m = g' @ t @ r'" and t: "spec_token t" by blast
        with d have "generateTemplate T D = (g @ g') @ t @ (r' @ r)" by simp
        with t have "contains_token spec_token (generateTemplate T D)"
          unfolding contains_token_iff by blast
        with assms(1) show False by simp
      next
        assume "m = [MARKER, MARKER, MARKER]"
        with d have "includes_str (generateTemplate T D) [MARKER, MARKER, MARKER]"
          unfolding includes_str_iff by blast
        with assms(2) show False by simp
      qed
    qed
  qed
  then show ?thesis by (simp add: generateTemplate_def[of "generateTemplate T D"])
qed

theorem generateTemplate_idempotent_without_tokens_witness:
  "generateTemplate (generateTemplate (js ''%name% 5%%'') data_dasha) data_dasha
     = js ''Dasha 5%%''"
proof -
  have out: "generateTemplate (js ''%name% 5%%'') data_dasha = js ''Dasha 5%%''"
    by (simp add: template_defs char_defs example_defs)
  have h1: "\<not> contains_token spec_token (generateTemplate (js ''%name% 5%%'') data_dasha)"
    unfolding out
    by (simp add: contains_token_def spec_token_def key_of_def slice_def char_defs)
  have h2: "\<not> includes_str (generateTemplate (js ''%name% 5%%'') data_dasha)
                [MARKER, MARKER, MARKER]"
    unfolding out by (simp add: char_defs)
  show ?thesis
    using generateTemplate_idempotent_without_tokens [OF h1 h2] out by simp
qed


section \<open>Properties of the input session\<close>

lemma resume_pending_location:
  assumes "p' \<in> set (snd (resume e p answer))"
    and "\<And>t l. p = AwaitData t l \<Longrightarrow> l \<noteq> []"
    and "p' = AwaitData t' l'"
  shows "l' \<noteq> []"
proof (cases p)
  case AwaitTemplate
  with assms(1,3) show ?thesis
    by (auto simp: Let_def log_def run_def ask_data_def readTemplateFile_def
        split: if_splits option.splits)
next
  case (AwaitData t l)
  with assms(2) have "l \<noteq> []" by simp
  with assms(1,3) AwaitData show ?thesis
    by (auto simp: Let_def log_def run_def ask_data_def seq_def writeFile_def
        split: if_splits sum.splits)
qed

text \<open>
  The template file location that a suspended data prompt carries is never empty, so the
  retry \<open>run({template, templateFileLocation})\<close> never falls back to the template prompt.
\<close>

lemma reachable_location: "reachable p \<Longrightarrow> p = AwaitData t l \<Longrightarrow> l \<noteq> []"
proof (induction arbitrary: t l rule: reachable.induct)
  case reachable_start
  then show ?case by simp
next
  case (reachable_step p p' e answer)
  show ?case
    using resume_pending_location [OF reachable_step.hyps(2) _ reachable_step.prems]
      reachable_step.IH by blast
qed

lemma reachable_example:
  "reachable (AwaitData (js ''<p>Hello %name%!</p>'') (js ''/home/d/template.html''))"
proof -
  have "AwaitData (js ''<p>Hello %name%!</p>'') (js ''/home/d/template.html'')
        \<in> set (snd (resume env_ok AwaitTemplate (js ''/home/d/template.html'')))"
    by (simp add: example_defs char_defs session_defs)
  then show ?thesis using reachable_start reachable_step by blast
qed

text \<open>
  Claim C6. At the read-and-parse attempt of the data step, that is, for a prompted data
  path that passed the validation before it (the trimmed answer is not empty and
  contains \<open>.json\<close>): a file that cannot be read produces the not-found message, a
  file that is read but does not parse as JSON produces the invalid-JSON message, and
  the two messages differ. In both cases the data question is asked again and the
  only call left suspended is the data prompt with the same template content and the
  same template file location: the template question is not asked.
\<close>

theorem data_step_failure_retries:
  assumes "reachable (AwaitData template loc)"
    and "path = trim answer"
    and "path \<noteq> []" and "includes_str path (js ''.json'')"
  shows "(readFileSync e path = None \<longrightarrow>
            resume e (AwaitData template loc) answer =
              ([Log (js ''File '' @ [QUOTE] @ path @ [QUOTE] @ js '' not found!''),
                Question (js ''Enter data file location: '')],
               [AwaitData template loc]))
     \<and> (\<forall>b. readFileSync e path = Some b \<longrightarrow> JSON_parse e b = None \<longrightarrow>
            resume e (AwaitData template loc) answer =
              ([Log (js ''File '' @ [QUOTE] @ path @ [QUOTE] @ js '' is invalid JSON!''),
                Question (js ''Enter data file location: '')],
               [AwaitData template loc]))
     \<and> js ''File '' @ [QUOTE] @ path @ [QUOTE] @ js '' not found!''
         \<noteq> js ''File '' @ [QUOTE] @ path @ [QUOTE] @ js '' is invalid JSON!''"
proof (intro conjI impI allI)
  have loc: "loc \<noteq> []" using reachable_location [OF assms(1)] by simp
  {
    assume "readFileSync e path = None"
    with loc assms(2,3,4)
    show "resume e (AwaitData template loc) answer =
              ([Log (js ''File '' @ [QUOTE] @ path @ [QUOTE] @ js '' not found!''),
                Question (js ''Enter data file location: '')],
               [AwaitData template loc])"
      by (simp add: Let_def log_def run_def ask_data_def readDataFile_def)
  next
    fix b assume "readFileSync e path = Some b" "JSON_parse e b = None"
    with loc assms(2,3,4)
    show "resume e (AwaitData template loc) answer =
              ([Log (js ''File '' @ [QUOTE] @ path @ [QUOTE] @ js '' is invalid JSON!''),
                Question (js ''Enter data file location: '')],
               [AwaitData template loc])"
      by (simp add: Let_def log_def run_def ask_data_def readDataFile_def)
  next
    show "js ''File '' @ [QUOTE] @ path @ [QUOTE] @ js '' not found!''
         \<noteq> js ''File '' @ [QUOTE] @ path @ [QUOTE] @ js '' is invalid JSON!''"
      by (simp add: js_def)
  }
qed

theorem data_step_failure_retries_witness:
  "resume env_ok (AwaitData (js ''<p>Hello %name%!</p>'') (js ''/home/d/template.html''))
      (js ''/home/d/cut.json'') =
     ([Log (js ''File '' @ [QUOTE] @ js ''/home/d/cut.json'' @ [QUOTE]
              @ js '' is invalid JSON!''),
       Question (js ''Enter data file location: '')],
      [AwaitData (js ''<p>Hello %name%!</p>'') (js ''/home/d/template.html'')])
   \<and> resume env_ok (AwaitData (js ''<p>Hello %name%!</p>'') (js ''/home/d/template.html''))
      (js ''/home/d/missing.json'') =
     ([Log (js ''File '' @ [QUOTE] @ js ''/home/d/missing.json'' @ [QUOTE]
              @ js '' not found!''),
       Question (js ''Enter data file location: '')],
      [AwaitData (js ''<p>Hello %name%!</p>'') (js ''/home/d/template.html'')])"
proof -
  have p1: "js ''/home/d/cut.json'' = trim (js ''/home/d/cut.json'')"
    by (simp add: char_defs trim_def)
  have n1: "js ''/home/d/cut.json'' \<noteq> []"
    by (simp add: js_def)
  have i1: "includes_str (js ''/home/d/cut.json'') (js ''.json'')"
    by (simp add: char_defs)
  have r1: "readFileSync env_ok (js ''/home/d/cut.json'') = Some (bytes_of ''{'')"
    by (simp add: example_defs char_defs)
  have j1: "JSON_parse env_ok (bytes_of ''{'') = None"
    by (simp add: example_defs char_defs)
  have p2: "js ''/home/d/missing.json'' = trim (js ''/home/d/missing.json'')"
    by (simp add: char_defs trim_def)
  have n2: "js ''/home/d/missing.json'' \<noteq> []"
    by (simp add: js_def)
  have i2: "includes_str (js ''/home/d/missing.json'') (js ''.json'')"
    by (simp add: char_defs)
  have r2: "readFileSync env_ok (js ''/home/d/missing.json'') = None"
    by (simp add: example_defs char_defs)
  show ?thesis
    using data_step_failure_retries [OF reachable_example p1 n1 i1, of env_ok]
      data_step_failure_retries [OF reachable_example p2 n2 i2, of env_ok]
      r1 j1 r2
    by simp
qed

text \<open>
  Claim C7. At the template prompt, let the path be the trimmed answer. If it is empty, or
  does not contain \<open>.html\<close>, or its file cannot be read, the session logs a reason (the
  file-type message in the first two cases, the not-found message in the third) and asks
  for the template path again: the only call left suspended is a fresh template prompt,
  which carries no state, and no data prompt is issued.
\<close>

theorem template_step_failure_restarts:
  assumes "trim answer = [] \<or> \<not> includes_str (trim answer) (js ''.html'')
           \<or> readFileSync e (trim answer) = None"
  shows "resume e AwaitTemplate answer =
     ([Log (if trim answer = [] \<or> \<not> includes_str (trim answer) (js ''.html'')
            then js ''Template file should be of type html!''
            else js ''File '' @ [QUOTE] @ trim answer @ [QUOTE] @ js '' not found!''),
       Question (js ''Enter template file location: '')],
      [AwaitTemplate])
     \<and> Question (js ''Enter data file location: '')
         \<notin> set (fst (resume e AwaitTemplate answer))"
proof -
  have neq: "js ''Enter data file location: '' \<noteq> js ''Enter template file location: ''"
    by (simp add: js_def)
  show ?thesis using assms neq
    by (auto simp: Let_def log_def run_def readTemplateFile_def split: option.splits)
qed

theorem template_step_failure_restarts_witness:
  "resume env_ok AwaitTemplate (js '' /home/d/template.txt'') =
     ([Log (js ''Template file should be of type html!''),
       Question (js ''Enter template file location: '')],
      [AwaitTemplate])
   \<and> resume env_ok AwaitTemplate (js ''/home/d/missing.html'') =
     ([Log (js ''File '' @ [QUOTE] @ js ''/home/d/missing.html'' @ [QUOTE]
              @ js '' not found!''),
       Question (js ''Enter template file location: '')],
      [AwaitTemplate])"
proof -
  have t1: "trim (js '' /home/d/template.txt'') = js ''/home/d/template.txt''"
    by (simp add: char_defs trim_def)
  have h1: "\<not> includes_str (js ''/home/d/template.txt'') (js ''.html'')"
    by (simp add: char_defs)
  have t2: "trim (js ''/home/d/missing.html'') = js ''/home/d/missing.html''"
    by (simp add: char_defs trim_def)
  have i2: "includes_str (js ''/home/d/missing.html'') (js ''.html'')"
    by (simp add: char_defs)
  have n2: "js ''/home/d/missing.html'' \<noteq> []"
    by (simp add: js_def)
  have h2: "readFileSync env_ok (js ''/home/d/missing.html'') = None"
    by (simp add: example_defs char_defs)
  show ?thesis
    using template_step_failure_restarts [of "js '' /home/d/template.txt''" env_ok]
      template_step_failure_restarts [of "js ''/home/d/missing.html''" env_ok]
      t1 h1 t2 i2 n2 h2
    by simp
qed

text \<open>
  Claim C10. When the data prompt receives a valid data file and the write of the
  generated file fails, \<open>run\<close> is called twice: once as the error callback of
  \<open>writeFile\<close> and once at the end of the cycle. Two calls are left suspended at the
  template prompt and the template question is asked twice, where a successful write
  leaves one call and one question.
\<close>

theorem write_failure_starts_two_cycles:
  assumes "trim answer \<noteq> []" and "includes_str (trim answer) (js ''.json'')"
    and "readDataFile e (trim answer) = Inr j"
    and "generateTemplate_json template j = Inr newContent"
    and "fileLocation = RESULTS_DIRECTORY e @ js ''/'' @ getFileNameFromPath e loc"
    and "served = js ''New file is served on https://localhost:'' @ PORT e @ js ''/''
                    @ getFileNameFromPath e loc"
  shows "resume e (AwaitData template loc) answer =
    (if writeFileSync e fileLocation newContent then
       ([WriteFile fileLocation newContent,
         Log served,
         Question (js ''Enter template file location: '')],
        [AwaitTemplate])
     else
       ([WriteFile fileLocation newContent,
         Log (js ''Could not create file!''),
         Question (js ''Enter template file location: ''),
         Log served,
         Question (js ''Enter template file location: '')],
        [AwaitTemplate, AwaitTemplate]))"
  using assms by (simp add: Let_def log_def run_def seq_def writeFile_def)

theorem write_failure_starts_two_cycles_witness:
  "resume env_no_results
     (AwaitData (js ''<p>Hello %name%!</p>'') (js ''/home/d/template.html''))
     (js ''/home/d/data.json'') =
     ([WriteFile (js ''/app/bin/../results/template.html'') (js ''<p>Hello Dasha!</p>''),
       Log (js ''Could not create file!''),
       Question (js ''Enter template file location: ''),
       Log (js ''New file is served on https://localhost:3000/template.html''),
       Question (js ''Enter template file location: '')],
      [AwaitTemplate, AwaitTemplate])"
proof -
  have t: "trim (js ''/home/d/data.json'') = js ''/home/d/data.json''"
    by (simp add: char_defs trim_def)
  have h1: "trim (js ''/home/d/data.json'') \<noteq> []"
    unfolding t by (simp add: js_def)
  have h2: "includes_str (trim (js ''/home/d/data.json'')) (js ''.json'')"
    unfolding t by (simp add: char_defs)
  have h3: "readDataFile env_no_results (trim (js ''/home/d/data.json'')) = Inr (JObject data_dasha)"
    unfolding t by (simp add: readDataFile_def example_defs char_defs)
  have h4: "generateTemplate_json (js ''<p>Hello %name%!</p>'') (JObject data_dasha)
            = Inr (js ''<p>Hello Dasha!</p>'')"
    by (simp add: generateTemplate_json_def template_defs char_defs example_defs)
  have h5: "js ''/app/bin/../results/template.html''
            = RESULTS_DIRECTORY env_no_results @ js ''/''
              @ getFileNameFromPath env_no_results (js ''/home/d/template.html'')"
    by (simp add: RESULTS_DIRECTORY_def getFileNameFromPath_def example_defs char_defs)
  have h6: "js ''New file is served on https://localhost:3000/template.html''
            = js ''New file is served on https://localhost:'' @ PORT env_no_results @ js ''/''
              @ getFileNameFromPath env_no_results (js ''/home/d/template.html'')"
    by (simp add: getFileNameFromPath_def example_defs char_defs)
  have w: "\<not> writeFileSync env_no_results (js ''/app/bin/../results/template.html'')
               (js ''<p>Hello Dasha!</p>'')"
    by (simp add: example_defs)
  show ?thesis
    using write_failure_starts_two_cycles [OF h1 h2 h3 h4 h5 h6] w by simp
qed


section \<open>Properties of the static server\<close>

text \<open>
  Claim C8. The claim is that a request for \<open>/\<close> is answered with status 404 and a
  plain-text body when the results directory cannot be enumerated. In the code the
  callback of \<open>fs.readdir\<close> calls \<open>files.filter\<close> before it looks at \<open>err\<close>; on a
  failure \<open>files\<close> is \<open>undefined\<close>, so a TypeError escapes from the callback, the promise
  is never rejected and no response is sent.
\<close>

theorem index_failure_uncaught:
  "readdir e (RESULTS_DIRECTORY e) = None \<Longrightarrow>
   httpsRequestHandler e (js ''/'') = Uncaught TypeError"
  by (simp add: httpsRequestHandler_def generateIndex_def readdir_callback_def)

theorem index_failure_uncaught_witness:
  "readdir env_no_results (RESULTS_DIRECTORY env_no_results) = None
   \<and> httpsRequestHandler env_no_results (js ''/'') = Uncaught TypeError"
proof -
  have h: "readdir env_no_results (RESULTS_DIRECTORY env_no_results) = None"
    by (simp add: example_defs)
  show ?thesis using index_failure_uncaught [OF h] h by simp
qed

text \<open>
  Claim C9. For a request whose path is not \<open>/\<close> the server reads the file named by the
  results directory, a slash and the path as supplied. If the read succeeds the response
  has status 200, content type \<open>text/html\<close> and the bytes of the file as its body,
  whatever the file is; if the read fails the response has status 404, content type
  \<open>text/plain\<close> and the body \<open>File not found!\<close>.
\<close>

theorem file_request_response:
  "url \<noteq> js ''/'' \<Longrightarrow>
   httpsRequestHandler e url =
     (case readFileSync e (RESULTS_DIRECTORY e @ js ''/'' @ url) of
        Some b \<Rightarrow>
          Responded \<lparr>status = 200, content_type = js ''text/html'', body = Raw b\<rparr>
      | None \<Rightarrow>
          Responded \<lparr>status = 404, content_type = js ''text/plain'',
                     body = Text (js ''File not found!'')\<rparr>)"
  by (simp add: httpsRequestHandler_def serveHtml_def split: option.splits)

theorem file_request_response_witness:
  "httpsRequestHandler env_ok (js ''/template.html'') =
     Responded \<lparr>status = 200, content_type = js ''text/html'',
                body = Raw (bytes_of ''<p>Hello Dasha!</p>'')\<rparr>
   \<and> httpsRequestHandler env_ok (js ''/missing.html'') =
     Responded \<lparr>status = 404, content_type = js ''text/plain'',
                body = Text (js ''File not found!'')\<rparr>"
proof -
  have u1: "js ''/template.html'' \<noteq> js ''/''"
    by (simp add: js_def)
  have u2: "js ''/missing.html'' \<noteq> js ''/''"
    by (simp add: js_def)
  have r1: "readFileSync env_ok (RESULTS_DIRECTORY env_ok @ js ''/'' @ js ''/template.html'')
            = Some (bytes_of ''<p>Hello Dasha!</p>'')"
    by (simp add: RESULTS_DIRECTORY_def example_defs char_defs)
  have r2: "readFileSync env_ok (RESULTS_DIRECTORY env_ok @ js ''/'' @ js ''/missing.html'')
            = None"
    by (simp add: RESULTS_DIRECTORY_def example_defs char_defs)
  show ?thesis
    using file_request_response [OF u1, of env_ok] file_request_response [OF u2, of env_ok]
    unfolding r1 r2 by simp
qed

end
